theory Spec2Isabelle
  imports Main
begin

section \<open>pkg/proxyerror: the error taxonomy\<close>

text \<open>
  \<^verbatim>\<open>type ProxyError struct { Code int; Time time.Time; Message string }\<close>.
  The timestamp is whatever \<^verbatim>\<open>time.Now()\<close> returns at creation; the clock is a parameter
  of every function that creates an error.
\<close>

record ProxyError =
  Code :: int
  Time :: nat
  Message :: string

text \<open>\<^verbatim>\<open>strings.Join(elems, sep)\<close> of the Go standard library.\<close>

fun Join :: "string list \<Rightarrow> string \<Rightarrow> string" where
  "Join [] sep = []"
| "Join [m] sep = m"
| "Join (m # ms) sep = m @ sep @ Join ms sep"

definition createError :: "nat \<Rightarrow> int \<Rightarrow> string list \<Rightarrow> ProxyError" where
  "createError now code messages =
     \<lparr>Code = code, Time = now, Message = Join messages '': ''\<rparr>"

definition BrokersNotSetError :: "nat \<Rightarrow> string list \<Rightarrow> ProxyError" where
  "BrokersNotSetError now messages = createError now 1 messages"

definition ConnectionError :: "nat \<Rightarrow> string list \<Rightarrow> ProxyError" where
  "ConnectionError now messages = createError now 2 messages"

definition ResourceCloseError :: "nat \<Rightarrow> string list \<Rightarrow> ProxyError" where
  "ResourceCloseError now messages = createError now 3 messages"

definition ResourceClosedError :: "nat \<Rightarrow> string list \<Rightarrow> ProxyError" where
  "ResourceClosedError now messages = createError now 4 messages"

definition ResourceWriteError :: "nat \<Rightarrow> string list \<Rightarrow> ProxyError" where
  "ResourceWriteError now messages = createError now 5 messages"

section \<open>The sarama library, as far as the producer uses it\<close>

text \<open>
  sarama is an external library. A message carries a topic, an optional key and a value
  (\<^verbatim>\<open>Key\<close> and \<^verbatim>\<open>Value\<close> are \<^verbatim>\<open>Encoder\<close> interfaces: \<open>None\<close> is nil); the other fields of
  \<^verbatim>\<open>sarama.ProducerMessage\<close> stay at their zero values and are left out.
\<close>

datatype Encoder = StringEncoder string

record ProducerMessage =
  Topic :: string
  Key :: "Encoder option"
  Value :: "Encoder option"

record ProducerError =
  Msg :: ProducerMessage
  Err :: string

datatype RequiredAcks = NoResponse | WaitForLocal | WaitForAll

datatype CompressionCodec =
  CompressionNone | CompressionGZIP | CompressionSnappy | CompressionLZ4 | CompressionZSTD

text \<open>
  \<^verbatim>\<open>sarama.Config\<close>: the three settings the producer writes, and every other setting of the
  library as one opaque value.
\<close>

record SaramaConfig =
  Producer_Return_Errors :: bool
  Producer_RequiredAcks :: RequiredAcks
  Producer_Compression :: CompressionCodec
  OtherSettings :: nat

text \<open>
  The Go type \<^verbatim>\<open>error\<close> is an interface: \<open>None\<close> is nil, \<open>Some m\<close> an error whose
  \<^verbatim>\<open>Error()\<close> is \<open>m\<close>.
\<close>

type_synonym go_error = "string option"

text \<open>
  The \<^verbatim>\<open>Adapter\<close> (a sarama AsyncProducer): the brokers and the configuration it was created
  with, how often its \<^verbatim>\<open>Close()\<close> has run, and its \<^verbatim>\<open>Errors()\<close> channel (the delivery
  errors waiting there, and whether the adapter has closed that channel).
\<close>

record Adapter =
  addrs :: "string list"
  conf :: SaramaConfig
  closeCalls :: nat
  errorsQ :: "ProducerError list"
  errorsClosed :: bool

text \<open>
  What the program cannot decide: the clock, \<^verbatim>\<open>sarama.NewConfig()\<close>, whether
  \<^verbatim>\<open>sarama.NewAsyncProducer\<close> connects (\<open>Some m\<close> is its error), and what the n-th call of
  the adapter's \<^verbatim>\<open>Close()\<close> returns.
\<close>

record env =
  clock :: nat
  NewConfig :: SaramaConfig
  connectError :: "string list \<Rightarrow> SaramaConfig \<Rightarrow> go_error"
  closeResult :: "nat \<Rightarrow> go_error"

definition NewAsyncProducer :: "env \<Rightarrow> string list \<Rightarrow> SaramaConfig \<Rightarrow> string + Adapter" where
  "NewAsyncProducer e brokers config =
     (case connectError e brokers config of
        Some m \<Rightarrow> Inl m
      | None \<Rightarrow> Inr \<lparr>addrs = brokers, conf = config, closeCalls = 0, errorsQ = [],
                     errorsClosed = False\<rparr>)"

section \<open>pkg/producer\<close>

text \<open>
  \<^verbatim>\<open>Config\<close>: the error handler is a function value (\<open>None\<close> is nil, \<open>Some h\<close> the user's
  function \<open>h\<close>, which the model only records calls of); \<^verbatim>\<open>KafkaBrokers\<close> is a slice
  (\<open>None\<close> is the nil slice); \<^verbatim>\<open>SaramaConfig\<close> is a pointer (\<open>None\<close> is nil).
\<close>

record Config =
  ErrHandler :: "nat option"
  KafkaBrokers :: "string list option"
  SaramaConfig :: "SaramaConfig option"

record Producer =
  producer :: Adapter
  isClosed :: bool
  isLoggingEnabled :: bool

definition CreateKeyMessage :: "Producer \<Rightarrow> string \<Rightarrow> string \<Rightarrow> string \<Rightarrow> ProducerMessage" where
  "CreateKeyMessage p topic key val =
     (let msg = \<lparr>Topic = topic, Key = None, Value = Some (StringEncoder val)\<rparr>
      in if key \<noteq> [] then msg\<lparr>Key := Some (StringEncoder key)\<rparr> else msg)"

definition CreateMessage :: "Producer \<Rightarrow> string \<Rightarrow> string \<Rightarrow> ProducerMessage" where
  "CreateMessage p topic val = CreateKeyMessage p topic [] val"

definition IsClosed :: "Producer \<Rightarrow> bool" where
  "IsClosed p = isClosed p"

definition Get :: "Producer \<Rightarrow> Adapter" where
  "Get p = producer p"

definition EnableLogging :: "Producer \<Rightarrow> Producer" where
  "EnableLogging p = p\<lparr>isLoggingEnabled := True\<rparr>"

text \<open>
  \<^verbatim>\<open>Input()\<close> returns a pair (channel, error). The only channel it can return is the
  adapter's input channel.
\<close>

datatype input_chan = AdapterInput

definition Input :: "nat \<Rightarrow> Producer \<Rightarrow> input_chan option \<times> ProxyError option" where
  "Input now p =
     (if \<not> IsClosed p then (Some AdapterInput, None)
      else (None, Some (ResourceClosedError now [''Producer already closed.''])))"

section \<open>Channels, goroutines and the running process\<close>

text \<open>
  A buffered channel of errors, \<^verbatim>\<open>make(chan error, n)\<close>. The source never closes such a
  channel, so a receive either takes the oldest buffered value or blocks, and a send
  either appends or blocks (\<open>None\<close>). A reference to a channel is \<open>Some\<close> address, or
  \<open>None\<close> for the nil channel, on which every receive blocks forever.
\<close>

record chan =
  cap :: nat
  buf :: "go_error list"

definition make_chan :: "nat \<Rightarrow> chan" where
  "make_chan n = \<lparr>cap = n, buf = []\<rparr>"

definition chan_send :: "chan \<Rightarrow> go_error \<Rightarrow> chan option" where
  "chan_send c v = (if length (buf c) < cap c then Some (c\<lparr>buf := buf c @ [v]\<rparr>) else None)"

definition chan_recv :: "chan \<Rightarrow> (go_error \<times> chan) option" where
  "chan_recv c = (case buf c of [] \<Rightarrow> None | v # vs \<Rightarrow> Some (v, c\<lparr>buf := vs\<rparr>))"

datatype Signal = SIGINT | SIGTERM | SIGQUIT

text \<open>
  How the process ended: \<^verbatim>\<open>log.Fatal\<close> prints and exits, a nil dereference or a call of a
  nil function panics.
\<close>

datatype exit_cause =
  CloseFatal go_error
| DeliveryFatal ProducerError
| InterruptFatal string

datatype panic_cause = NilErrorDeref | NilHandlerCall

datatype status = Running | Exited exit_cause | Panicked panic_cause

text \<open>
  The goroutine of \<^verbatim>\<open>Close\<close>, by the statement it is about to run, with its captured
  channel and its local \<^verbatim>\<open>err\<close>.
\<close>

datatype closer_pc = AtClose | AtCheckLogging | AtSend | AtLogClosed | AtSetClosed | Finished

record closer =
  at :: closer_pc
  closeErrorChan :: nat
  closeErr :: go_error

text \<open>The goroutine of \<^verbatim>\<open>handleKeyInterrupt\<close> and the goroutine of \<^verbatim>\<open>handleErrors\<close>.\<close>

datatype watcher =
  WatcherNotStarted
| AwaitSignal
| Signalled
| AwaitCloseError "nat option"
| GotCloseError go_error

datatype router = RouterNotStarted | AwaitError | GotError ProducerError | RouterDone

text \<open>
  The process: the \<^verbatim>\<open>Producer\<close> struct, the handler captured by the error goroutine, the
  heap of result channels (\<open>nchans\<close> are allocated), the signal channel (capacity 1), the
  goroutines, the calls made to the user's handler, the lines printed by \<^verbatim>\<open>log.Println\<close>,
  and whether the process still runs.
\<close>

record process =
  proxyProducer :: Producer
  errHandler :: "nat option"
  chans :: "nat \<Rightarrow> chan"
  nchans :: nat
  sigChan :: "Signal list"
  watcher :: watcher
  router :: router
  closers :: "closer list"
  handled :: "(nat \<times> ProducerError) list"
  logs :: "string list"
  status :: status

text \<open>
  \<^verbatim>\<open>Close()\<close>, the part that runs in the caller: on a closed producer it returns nil and
  does nothing else; otherwise it makes a channel of capacity 1, starts the goroutine
  (which has not run any statement yet) and returns the channel.
\<close>

definition Close :: "process \<Rightarrow> nat option \<times> process" where
  "Close s =
     (if IsClosed (proxyProducer s) then (None, s)
      else let c = nchans s
           in (Some c,
               s\<lparr>chans := (chans s)(c := make_chan 1),
                 nchans := Suc (nchans s),
                 closers := closers s @ [\<lparr>at = AtClose, closeErrorChan = c, closeErr = None\<rparr>]\<rparr>))"

definition set_closer :: "nat \<Rightarrow> closer \<Rightarrow> process \<Rightarrow> process" where
  "set_closer i c s = s\<lparr>closers := (closers s)[i := c]\<rparr>"

text \<open>
  One statement of the goroutine that \<^verbatim>\<open>Close\<close> started as number \<open>i\<close>:
  \<^item> \<open>AtClose\<close>: \<^verbatim>\<open>err := producer.Close()\<close> and the test \<^verbatim>\<open>err != nil\<close>;
  \<^item> \<open>AtCheckLogging\<close>: \<^verbatim>\<open>if p.isLoggingEnabled { log.Fatal(..., err) }\<close>;
  \<^item> \<open>AtSend\<close>: \<^verbatim>\<open>closeErrorChan <- err\<close>, which blocks while the channel is full;
  \<^item> \<open>AtLogClosed\<close>: \<^verbatim>\<open>if p.isLoggingEnabled { log.Println("Async Producer closed.") }\<close>;
  \<^item> \<open>AtSetClosed\<close>: \<^verbatim>\<open>p.isClosed = true\<close>.
\<close>

definition closer_step :: "env \<Rightarrow> nat \<Rightarrow> process \<Rightarrow> process" where
  "closer_step e i s =
     (if length (closers s) \<le> i then s
      else let c = closers s ! i in
        case at c of
          AtClose \<Rightarrow>
            (let a = Get (proxyProducer s); r = closeResult e (closeCalls a)
             in set_closer i (c\<lparr>closeErr := r, at := (if r \<noteq> None then AtCheckLogging else AtLogClosed)\<rparr>)
                  (s\<lparr>proxyProducer := (proxyProducer s)\<lparr>producer := a\<lparr>closeCalls := Suc (closeCalls a)\<rparr>\<rparr>\<rparr>))
        | AtCheckLogging \<Rightarrow>
            (if isLoggingEnabled (proxyProducer s) then s\<lparr>status := Exited (CloseFatal (closeErr c))\<rparr>
             else set_closer i (c\<lparr>at := AtSend\<rparr>) s)
        | AtSend \<Rightarrow>
            (case chan_send (chans s (closeErrorChan c)) (closeErr c) of
               None \<Rightarrow> s
             | Some ch \<Rightarrow>
                 set_closer i (c\<lparr>at := AtLogClosed\<rparr>)
                   (s\<lparr>chans := (chans s)(closeErrorChan c := ch)\<rparr>))
        | AtLogClosed \<Rightarrow>
            set_closer i (c\<lparr>at := AtSetClosed\<rparr>)
              (if isLoggingEnabled (proxyProducer s) then s\<lparr>logs := logs s @ [''Async Producer closed.'']\<rparr>
               else s)
        | AtSetClosed \<Rightarrow>
            set_closer i (c\<lparr>at := Finished\<rparr>) (s\<lparr>proxyProducer := (proxyProducer s)\<lparr>isClosed := True\<rparr>\<rparr>)
        | Finished \<Rightarrow> s)"

text \<open>
  One statement of the signal goroutine:
  \<^item> \<open>AwaitSignal\<close>: \<^verbatim>\<open><-sigChan\<close>, which blocks while no signal has arrived;
  \<^item> \<open>Signalled\<close>: \<^verbatim>\<open>log.Println("Keyboard-Interrupt signal received.")\<close> and the call
    \<^verbatim>\<open>p.Close()\<close>;
  \<^item> \<open>AwaitCloseError\<close>: the receive \<^verbatim>\<open>closeError := <-...\<close> from the channel that
    \<^verbatim>\<open>Close()\<close> returned, which blocks on nil and on an empty channel;
  \<^item> \<open>GotCloseError\<close>: \<^verbatim>\<open>log.Fatalln(closeError.Error())\<close>, a nil dereference if
    \<^verbatim>\<open>closeError\<close> is nil.
\<close>

definition watcher_step :: "process \<Rightarrow> process" where
  "watcher_step s =
     (case watcher s of
        WatcherNotStarted \<Rightarrow> s
      | AwaitSignal \<Rightarrow>
          (case sigChan s of [] \<Rightarrow> s | sg # sgs \<Rightarrow> s\<lparr>sigChan := sgs, watcher := Signalled\<rparr>)
      | Signalled \<Rightarrow>
          (let s1 = s\<lparr>logs := logs s @ [''Keyboard-Interrupt signal received.'']\<rparr>;
               (r, s2) = Close s1
           in s2\<lparr>watcher := AwaitCloseError r\<rparr>)
      | AwaitCloseError r \<Rightarrow>
          (case r of
             None \<Rightarrow> s
           | Some c \<Rightarrow>
               (case chan_recv (chans s c) of
                  None \<Rightarrow> s
                | Some (v, ch) \<Rightarrow> s\<lparr>chans := (chans s)(c := ch), watcher := GotCloseError v\<rparr>))
      | GotCloseError v \<Rightarrow>
          (case v of
             None \<Rightarrow> s\<lparr>status := Panicked NilErrorDeref\<rparr>
           | Some m \<Rightarrow> s\<lparr>status := Exited (InterruptFatal m)\<rparr>))"

text \<open>
  One statement of the error goroutine:
  \<^item> \<open>AwaitError\<close>: the next round of \<^verbatim>\<open>for err := range producer.Errors()\<close>, which
    blocks while the channel is empty and open, and ends the loop when it is closed;
  \<^item> \<open>GotError\<close>: \<^verbatim>\<open>if p.isLoggingEnabled { log.Fatalln(..., err) }\<close> and then
    \<^verbatim>\<open>errHandler(err)\<close>, a panic if \<^verbatim>\<open>errHandler\<close> is nil.
\<close>

definition router_step :: "process \<Rightarrow> process" where
  "router_step s =
     (case router s of
        RouterNotStarted \<Rightarrow> s
      | AwaitError \<Rightarrow>
          (let a = Get (proxyProducer s) in
           case errorsQ a of
             [] \<Rightarrow> if errorsClosed a then s\<lparr>router := RouterDone\<rparr> else s
           | x # xs \<Rightarrow> s\<lparr>proxyProducer := (proxyProducer s)\<lparr>producer := a\<lparr>errorsQ := xs\<rparr>\<rparr>, router := GotError x\<rparr>)
      | GotError x \<Rightarrow>
          (if isLoggingEnabled (proxyProducer s) then s\<lparr>status := Exited (DeliveryFatal x)\<rparr>
           else case errHandler s of
                  None \<Rightarrow> s\<lparr>status := Panicked NilHandlerCall\<rparr>
                | Some h \<Rightarrow> s\<lparr>handled := handled s @ [(h, x)], router := AwaitError\<rparr>)
      | RouterDone \<Rightarrow> s)"

text \<open>
  What can happen next: the user calls \<^verbatim>\<open>Close()\<close> or \<^verbatim>\<open>EnableLogging()\<close> or receives
  from a result channel, the operating system delivers a signal (\<^verbatim>\<open>signal.Notify\<close> never
  blocks: a signal that finds the channel full is dropped), the adapter reports a delivery
  error or closes its error channel, or one goroutine runs its next statement.
\<close>

datatype action =
  UserClose
| UserEnableLogging
| UserRecv nat
| OsSignal Signal
| AdapterError ProducerError
| AdapterErrorsClosed
| RunWatcher
| RunRouter
| RunCloser nat

definition step :: "env \<Rightarrow> action \<Rightarrow> process \<Rightarrow> process" where
  "step e a s =
     (if status s \<noteq> Running then s
      else case a of
        UserClose \<Rightarrow> snd (Close s)
      | UserEnableLogging \<Rightarrow> s\<lparr>proxyProducer := EnableLogging (proxyProducer s)\<rparr>
      | UserRecv c \<Rightarrow>
          (case chan_recv (chans s c) of
             None \<Rightarrow> s
           | Some (v, ch) \<Rightarrow> s\<lparr>chans := (chans s)(c := ch)\<rparr>)
      | OsSignal sg \<Rightarrow> (if length (sigChan s) < 1 then s\<lparr>sigChan := sigChan s @ [sg]\<rparr> else s)
      | AdapterError x \<Rightarrow>
          (let a = Get (proxyProducer s)
           in if errorsClosed a then s
              else s\<lparr>proxyProducer := (proxyProducer s)\<lparr>producer := a\<lparr>errorsQ := errorsQ a @ [x]\<rparr>\<rparr>\<rparr>)
      | AdapterErrorsClosed \<Rightarrow>
          s\<lparr>proxyProducer := (proxyProducer s)\<lparr>producer := (Get (proxyProducer s))\<lparr>errorsClosed := True\<rparr>\<rparr>\<rparr>
      | RunWatcher \<Rightarrow> watcher_step s
      | RunRouter \<Rightarrow> router_step s
      | RunCloser i \<Rightarrow> closer_step e i s)"

fun exec :: "env \<Rightarrow> action list \<Rightarrow> process \<Rightarrow> process" where
  "exec e [] s = s"
| "exec e (a # as) s = exec e as (step e a s)"

subsection \<open>Construction\<close>

text \<open>
  \<^verbatim>\<open>handleKeyInterrupt\<close> makes the signal channel, registers it for SIGINT, SIGTERM and
  SIGQUIT and starts the signal goroutine; \<^verbatim>\<open>handleErrors\<close> starts the error goroutine
  with the handler it was given.
\<close>

definition handleKeyInterrupt :: "process \<Rightarrow> process" where
  "handleKeyInterrupt s = s\<lparr>sigChan := [], watcher := AwaitSignal\<rparr>"

definition handleErrors :: "nat option \<Rightarrow> process \<Rightarrow> process" where
  "handleErrors h s = s\<lparr>errHandler := h, router := AwaitError\<rparr>"

text \<open>The process that holds the new \<^verbatim>\<open>Producer\<close> before any goroutine is started.\<close>

definition fresh :: "Producer \<Rightarrow> process" where
  "fresh p =
     \<lparr>proxyProducer = p, errHandler = None, chans = (\<lambda>_. make_chan 0), nchans = 0, sigChan = [],
      watcher = WatcherNotStarted, router = RouterNotStarted, closers = [], handled = [],
      logs = [], status = Running\<rparr>"

text \<open>\<^verbatim>\<open>len\<close> of a slice that may be nil, and its elements.\<close>

fun slice_len :: "'a list option \<Rightarrow> nat" where
  "slice_len None = 0"
| "slice_len (Some xs) = length xs"

fun slice_elems :: "'a list option \<Rightarrow> 'a list" where
  "slice_elems None = []"
| "slice_elems (Some xs) = xs"

datatype failure = NilPointer | Failed ProxyError

definition New :: "env \<Rightarrow> Config option \<Rightarrow> failure + process" where
  "New e initConfig =
     (case initConfig of
        None \<Rightarrow> Inl NilPointer
      | Some cfg \<Rightarrow>
          if KafkaBrokers cfg = None \<or> slice_len (KafkaBrokers cfg) = 0
          then Inl (Failed (BrokersNotSetError (clock e) [''No Kafka Brokers set.'']))
          else let config =
                 (case SaramaConfig cfg of
                    Some sc \<Rightarrow> sc
                  | None \<Rightarrow>
                      (NewConfig e)\<lparr>Producer_Return_Errors := True,
                                    Producer_RequiredAcks := WaitForAll,
                                    Producer_Compression := CompressionNone\<rparr>)
               in case NewAsyncProducer e (slice_elems (KafkaBrokers cfg)) config of
                    Inl m \<Rightarrow> Inl (Failed (ConnectionError (clock e) [m]))
                  | Inr a \<Rightarrow>
                      Inr (handleErrors (ErrHandler cfg)
                             (handleKeyInterrupt
                                (fresh \<lparr>producer = a, isClosed = False,
                                        isLoggingEnabled = False\<rparr>))))"

section \<open>Concrete inputs\<close>

text \<open>
  Inputs on which the theorems below are run: the library's default configuration, an
  environment in which the adapter closes cleanly and one in which every close fails, and
  two configurations of the producer.
\<close>

definition library_config :: SaramaConfig where
  "library_config =
     \<lparr>Producer_Return_Errors = True, Producer_RequiredAcks = WaitForLocal,
      Producer_Compression = CompressionGZIP, OtherSettings = 42\<rparr>"

definition tuned_config :: SaramaConfig where
  "tuned_config =
     \<lparr>Producer_Return_Errors = False, Producer_RequiredAcks = NoResponse,
      Producer_Compression = CompressionSnappy, OtherSettings = 7\<rparr>"

definition clean_env :: env where
  "clean_env =
     \<lparr>clock = 100, NewConfig = library_config, connectError = (\<lambda>_ _. None),
      closeResult = (\<lambda>_. None)\<rparr>"

definition failing_env :: env where
  "failing_env =
     \<lparr>clock = 100, NewConfig = library_config, connectError = (\<lambda>_ _. None),
      closeResult = (\<lambda>_. Some ''broker gone'')\<rparr>"

definition local_config :: Config where
  "local_config =
     \<lparr>ErrHandler = Some 0, KafkaBrokers = Some [''localhost:9092''], SaramaConfig = None\<rparr>"

definition bare_config :: Config where
  "bare_config =
     \<lparr>ErrHandler = None, KafkaBrokers = Some [''localhost:9092''], SaramaConfig = None\<rparr>"

definition open_adapter :: Adapter where
  "open_adapter =
     \<lparr>addrs = [''localhost:9092''],
      conf = \<lparr>Producer_Return_Errors = True, Producer_RequiredAcks = WaitForAll,
              Producer_Compression = CompressionNone, OtherSettings = 42\<rparr>,
      closeCalls = 0, errorsQ = [], errorsClosed = False\<rparr>"

text \<open>The process right after \<^verbatim>\<open>New\<close> has returned, with and without an error handler.\<close>

definition started :: process where
  "started =
     \<lparr>proxyProducer = \<lparr>producer = open_adapter, isClosed = False, isLoggingEnabled = False\<rparr>,
      errHandler = Some 0, chans = (\<lambda>_. make_chan 0), nchans = 0, sigChan = [],
      watcher = AwaitSignal, router = AwaitError, closers = [], handled = [], logs = [],
      status = Running\<rparr>"

definition started_bare :: process where
  "started_bare = started\<lparr>errHandler := None\<rparr>"

section \<open>Schedules and invariants\<close>

text \<open>Goroutine \<open>i\<close> of \<^verbatim>\<open>Close\<close> runs its next \<open>n\<close> statements, nothing else in between.\<close>

definition run_closer :: "env \<Rightarrow> nat \<Rightarrow> nat \<Rightarrow> process \<Rightarrow> process" where
  "run_closer e n i s = exec e (replicate n (RunCloser i)) s"

text \<open>
  A call of \<^verbatim>\<open>Close()\<close>, then the next \<open>n\<close> statements of the goroutine it started (on a
  producer that is not closed, the new goroutine is the last one).
\<close>

definition close_then_run :: "env \<Rightarrow> nat \<Rightarrow> process \<Rightarrow> process" where
  "close_then_run e n s = run_closer e n (length (closers s)) (snd (Close s))"

text \<open>
  \<open>v\<close> is an error (not nil) that one of the first \<open>n\<close> calls of the adapter's
  \<^verbatim>\<open>Close()\<close> returned.
\<close>

definition reported :: "env \<Rightarrow> nat \<Rightarrow> go_error \<Rightarrow> bool" where
  "reported e n v = (v \<noteq> None \<and> (\<exists>k < n. closeResult e k = v))"

text \<open>
  Every value that a close goroutine is about to send, that waits in a result channel, that
  the signal goroutine has received, or that it has exited with, is such an error; and the
  signal goroutine has not dereferenced nil.
\<close>

definition close_errors_only :: "env \<Rightarrow> process \<Rightarrow> bool" where
  "close_errors_only e s =
     ((\<forall>i < length (closers s).
         at (closers s ! i) = AtCheckLogging \<or> at (closers s ! i) = AtSend \<longrightarrow>
         reported e (closeCalls (Get (proxyProducer s))) (closeErr (closers s ! i))) \<and>
      (\<forall>a. \<forall>v \<in> set (buf (chans s a)). reported e (closeCalls (Get (proxyProducer s))) v) \<and>
      (\<forall>v. watcher s = GotCloseError v \<longrightarrow> reported e (closeCalls (Get (proxyProducer s))) v) \<and>
      (\<forall>m. status s = Exited (InterruptFatal m) \<longrightarrow>
         reported e (closeCalls (Get (proxyProducer s))) (Some m)) \<and>
      status s \<noteq> Panicked NilErrorDeref)"

text \<open>The signal goroutine is past its \<^verbatim>\<open>log.Println\<close>.\<close>

fun after_signal :: "watcher \<Rightarrow> bool" where
  "after_signal (AwaitCloseError r) = True"
| "after_signal (GotCloseError v) = True"
| "after_signal w = False"

definition interrupt_logged :: "process \<Rightarrow> bool" where
  "interrupt_logged s =
     ((after_signal (watcher s) \<longrightarrow> ''Keyboard-Interrupt signal received.'' \<in> set (logs s)) \<and>
      (\<forall>m. status s = Exited (InterruptFatal m) \<longrightarrow> after_signal (watcher s)))"

text \<open>
  Result channels and close goroutines are created together: goroutine \<open>i\<close> holds channel
  \<open>i\<close>, of capacity 1, which is empty until that goroutine has sent and never holds
  anything but the one value it sent.
\<close>

definition result_channels :: "process \<Rightarrow> bool" where
  "result_channels s =
     (nchans s = length (closers s) \<and>
      (\<forall>i < length (closers s).
         closeErrorChan (closers s ! i) = i \<and>
         cap (chans s i) = 1 \<and>
         (at (closers s ! i) = AtClose \<or> at (closers s ! i) = AtCheckLogging \<or>
          at (closers s ! i) = AtSend \<longrightarrow> buf (chans s i) = []) \<and>
         (buf (chans s i) = [] \<or> buf (chans s i) = [closeErr (closers s ! i)])))"

section \<open>Construction\<close>

lemmas error_defs = createError_def BrokersNotSetError_def ConnectionError_def
  ResourceCloseError_def ResourceClosedError_def ResourceWriteError_def

lemmas example_defs = library_config_def tuned_config_def clean_env_def failing_env_def
  local_config_def bare_config_def open_adapter_def started_def started_bare_def

lemmas New_defs = New_def NewAsyncProducer_def handleErrors_def handleKeyInterrupt_def
  fresh_def Get_def Let_def

lemma New_local_config: "New clean_env (Some local_config) = Inr started"
  by (simp add: New_defs example_defs)

lemma New_local_config_failing: "New failing_env (Some local_config) = Inr started"
  by (simp add: New_defs example_defs)

lemma New_bare_config: "New clean_env (Some bare_config) = Inr started_bare"
  by (simp add: New_defs example_defs)

text \<open>
  C7. A configuration whose broker list is nil or empty makes \<^verbatim>\<open>New\<close> fail with the
  BrokersNotSet error (code 1) and return no producer, whatever the error handler and the
  sarama configuration are.
\<close>

theorem New_without_brokers:
  assumes "KafkaBrokers cfg = None \<or> KafkaBrokers cfg = Some []"
  shows "New e (Some cfg) =
           Inl (Failed \<lparr>Code = 1, Time = clock e, Message = ''No Kafka Brokers set.''\<rparr>)"
  using assms by (auto simp: New_def error_defs)

theorem New_without_brokers_witness:
  "New clean_env (Some \<lparr>ErrHandler = Some 3, KafkaBrokers = Some [],
                        SaramaConfig = Some tuned_config\<rparr>) =
     Inl (Failed \<lparr>Code = 1, Time = 100, Message = ''No Kafka Brokers set.''\<rparr>)"
  using New_without_brokers
    [of "\<lparr>ErrHandler = Some 3, KafkaBrokers = Some [], SaramaConfig = Some tuned_config\<rparr>"
        clean_env]
  by (simp add: clean_env_def)

text \<open>
  C10. When \<^verbatim>\<open>New\<close> succeeds, the adapter was created with the caller's sarama
  configuration, unchanged, if one was given; otherwise with the library's defaults in which
  exactly three settings are overwritten: delivery errors are returned, acknowledgement is
  awaited from all replicas, and compression is off.
\<close>

theorem New_config:
  assumes "New e (Some cfg) = Inr s"
  shows "(\<forall>sc. SaramaConfig cfg = Some sc \<longrightarrow> conf (Get (proxyProducer s)) = sc) \<and>
         (SaramaConfig cfg = None \<longrightarrow>
            conf (Get (proxyProducer s)) =
              \<lparr>Producer_Return_Errors = True, Producer_RequiredAcks = WaitForAll,
               Producer_Compression = CompressionNone,
               OtherSettings = OtherSettings (NewConfig e)\<rparr>)"
  using assms
  by (auto simp: New_defs split: if_splits option.splits sum.splits)

theorem New_config_witness:
  "New clean_env (Some local_config) = Inr started \<and>
   SaramaConfig local_config = None \<and>
   conf (Get (proxyProducer started)) =
     \<lparr>Producer_Return_Errors = True, Producer_RequiredAcks = WaitForAll,
      Producer_Compression = CompressionNone, OtherSettings = 42\<rparr>"
proof -
  have "conf (Get (proxyProducer started)) =
     \<lparr>Producer_Return_Errors = True, Producer_RequiredAcks = WaitForAll,
      Producer_Compression = CompressionNone, OtherSettings = 42\<rparr>"
    using New_config [OF New_local_config]
    by (simp add: local_config_def clean_env_def library_config_def)
  then show ?thesis
    using New_local_config by (simp add: local_config_def)
qed

section \<open>Messages\<close>

text \<open>
  C8. For every topic and value, \<^verbatim>\<open>CreateKeyMessage\<close> with the empty key and
  \<^verbatim>\<open>CreateMessage\<close> build a message whose key is nil, and \<^verbatim>\<open>CreateKeyMessage\<close> with a
  non-empty key \<open>k\<close> builds a message whose key is exactly \<open>k\<close>; topic and value are the
  ones given.
\<close>

theorem CreateKeyMessage_key:
  "Key (CreateKeyMessage p topic [] v) = None \<and>
   Key (CreateMessage p topic v) = None \<and>
   (k \<noteq> [] \<longrightarrow> Key (CreateKeyMessage p topic k v) = Some (StringEncoder k)) \<and>
   Topic (CreateKeyMessage p topic k v) = topic \<and>
   Value (CreateKeyMessage p topic k v) = Some (StringEncoder v)"
  by (simp add: CreateKeyMessage_def CreateMessage_def Let_def)

theorem CreateKeyMessage_key_witness:
  "Key (CreateKeyMessage (proxyProducer started) ''orders'' ''k'' ''paid'') =
     Some (StringEncoder ''k'') \<and>
   Key (CreateKeyMessage (proxyProducer started) ''orders'' [] ''paid'') = None \<and>
   Key (CreateMessage (proxyProducer started) ''orders'' ''paid'') = None"
  using CreateKeyMessage_key [of "proxyProducer started" "''orders''" "''paid''" "''k''"]
  by simp

section \<open>Steps and schedules\<close>

lemmas step_defs = closer_step_def watcher_step_def router_step_def Close_def set_closer_def
  IsClosed_def Get_def EnableLogging_def chan_send_def chan_recv_def make_chan_def Let_def

lemma step_stopped: "status s \<noteq> Running \<Longrightarrow> step e a s = s"
  by (simp add: step_def)

lemma exec_stopped: "status s \<noteq> Running \<Longrightarrow> exec e as s = s"
  by (induction as) (simp_all add: step_stopped)

lemma exec_append: "exec e (as @ bs) s = exec e bs (exec e as s)"
  by (induction as arbitrary: s) simp_all

lemma run_closer_0: "run_closer e 0 i s = s"
  by (simp add: run_closer_def)

lemma run_closer_Suc: "run_closer e (Suc n) i s = run_closer e n i (step e (RunCloser i) s)"
  by (simp add: run_closer_def)

lemma run_closer_stopped: "status s \<noteq> Running \<Longrightarrow> run_closer e n i s = s"
  by (simp add: run_closer_def exec_stopped)

subsection \<open>Only close errors travel on result channels\<close>

lemma reported_Suc: "reported e n v \<Longrightarrow> reported e (Suc n) v"
  by (auto simp: reported_def less_Suc_eq)

lemma reported_new: "closeResult e n = Some y \<Longrightarrow> reported e (Suc n) (Some y)"
  by (auto simp: reported_def)

lemma reported_not_nil: "reported e n None = False"
  by (simp add: reported_def)

lemma closer_step_errors:
  assumes "close_errors_only e s"
  shows "close_errors_only e (closer_step e i s)"
proof (cases "length (closers s) \<le> i")
  case True
  then show ?thesis using assms by (simp add: closer_step_def)
next
  case False
  then have i: "i < length (closers s)" by simp
  show ?thesis
  proof (cases "at (closers s ! i)")
    case AtClose
    then show ?thesis using assms i
      by (auto simp: close_errors_only_def step_defs nth_list_update
          intro: reported_Suc reported_new)
  next
    case AtCheckLogging
    then show ?thesis using assms i
      by (auto simp: close_errors_only_def step_defs nth_list_update)
  next
    case AtSend
    then show ?thesis using assms i
      by (auto simp: close_errors_only_def step_defs nth_list_update)
  next
    case AtLogClosed
    then show ?thesis using assms i
      by (auto simp: close_errors_only_def step_defs nth_list_update)
  next
    case AtSetClosed
    then show ?thesis using assms i
      by (auto simp: close_errors_only_def step_defs nth_list_update)
  next
    case Finished
    then show ?thesis using assms i
      by (auto simp: close_errors_only_def step_defs nth_list_update)
  qed
qed

lemma watcher_step_errors:
  assumes "close_errors_only e s"
  shows "close_errors_only e (watcher_step s)"
proof (cases "watcher s")
  case WatcherNotStarted
  then show ?thesis using assms by (simp add: watcher_step_def)
next
  case AwaitSignal
  then show ?thesis using assms
    by (auto simp: close_errors_only_def watcher_step_def Get_def split: list.splits)
next
  case Signalled
  then show ?thesis using assms
    by (auto simp: close_errors_only_def step_defs nth_append)
next
  case (AwaitCloseError r)
  show ?thesis
  proof (cases r)
    case None
    then show ?thesis using assms AwaitCloseError by (simp add: watcher_step_def)
  next
    case (Some c)
    show ?thesis
    proof (cases "buf (chans s c)")
      case Nil
      then show ?thesis using assms AwaitCloseError Some
        by (simp add: watcher_step_def chan_recv_def)
    next
      case (Cons x xs)
      have "\<forall>v \<in> set (x # xs). reported e (closeCalls (Get (proxyProducer s))) v"
        using assms Cons [symmetric] by (simp add: close_errors_only_def)
      then show ?thesis using assms AwaitCloseError Some Cons
        by (auto simp: close_errors_only_def watcher_step_def chan_recv_def Get_def)
    qed
  qed
next
  case (GotCloseError v)
  then show ?thesis using assms
    by (cases v) (auto simp: close_errors_only_def watcher_step_def Get_def reported_not_nil)
qed

lemma router_step_errors:
  assumes "close_errors_only e s"
  shows "close_errors_only e (router_step s)"
  using assms
  by (cases "router s")
    (auto simp: close_errors_only_def step_defs split: option.splits list.splits)

lemma step_errors:
  assumes "close_errors_only e s"
  shows "close_errors_only e (step e a s)"
proof (cases "status s = Running")
  case False
  then show ?thesis using assms by (simp add: step_def)
next
  case True
  show ?thesis
  proof (cases a)
    case UserClose
    then show ?thesis using assms True
      by (auto simp: step_def close_errors_only_def Close_def make_chan_def Get_def Let_def
          nth_append)
  next
    case UserEnableLogging
    then show ?thesis using assms True
      by (auto simp: step_def close_errors_only_def EnableLogging_def Get_def)
  next
    case (UserRecv c)
    show ?thesis
    proof (cases "buf (chans s c)")
      case Nil
      then show ?thesis using assms True UserRecv by (simp add: step_def chan_recv_def)
    next
      case (Cons x xs)
      have "\<forall>v \<in> set (x # xs). reported e (closeCalls (Get (proxyProducer s))) v"
        using assms Cons [symmetric] by (simp add: close_errors_only_def)
      then show ?thesis using assms True UserRecv Cons
        by (auto simp: close_errors_only_def step_def chan_recv_def Get_def)
    qed
  next
    case (OsSignal sg)
    then show ?thesis using assms True
      by (auto simp: step_def close_errors_only_def Get_def)
  next
    case (AdapterError x)
    then show ?thesis using assms True
      by (auto simp: step_def close_errors_only_def Get_def Let_def)
  next
    case AdapterErrorsClosed
    then show ?thesis using assms True
      by (auto simp: step_def close_errors_only_def Get_def)
  next
    case RunWatcher
    then show ?thesis using assms True by (simp add: step_def watcher_step_errors)
  next
    case RunRouter
    then show ?thesis using assms True by (simp add: step_def router_step_errors)
  next
    case (RunCloser i)
    then show ?thesis using assms True by (simp add: step_def closer_step_errors)
  qed
qed

lemma exec_errors: "close_errors_only e s \<Longrightarrow> close_errors_only e (exec e as s)"
  by (induction as arbitrary: s) (simp_all add: step_errors)

lemma New_errors: "New e cfg = Inr s \<Longrightarrow> close_errors_only e s"
  by (auto simp: New_defs close_errors_only_def make_chan_def
      split: option.splits if_splits sum.splits)

subsection \<open>The interrupt is logged before anything else the signal goroutine does\<close>

lemma closer_step_logged:
  assumes "interrupt_logged s"
  shows "interrupt_logged (closer_step e i s)"
  using assms
  by (cases "at (closers s ! i)") (auto simp: interrupt_logged_def step_defs)

lemma watcher_step_logged:
  assumes "interrupt_logged s"
  shows "interrupt_logged (watcher_step s)"
  using assms
  by (cases "watcher s")
    (auto simp: interrupt_logged_def step_defs split: option.splits list.splits)

lemma router_step_logged:
  assumes "interrupt_logged s"
  shows "interrupt_logged (router_step s)"
  using assms
  by (cases "router s")
    (auto simp: interrupt_logged_def step_defs split: option.splits list.splits)

lemma step_logged:
  assumes "interrupt_logged s"
  shows "interrupt_logged (step e a s)"
proof (cases "status s = Running")
  case False
  then show ?thesis using assms by (simp add: step_def)
next
  case True
  show ?thesis
  proof (cases a)
    case RunWatcher
    then show ?thesis using assms True by (simp add: step_def watcher_step_logged)
  next
    case RunRouter
    then show ?thesis using assms True by (simp add: step_def router_step_logged)
  next
    case (RunCloser i)
    then show ?thesis using assms True by (simp add: step_def closer_step_logged)
  qed (use assms True in \<open>auto simp: step_def interrupt_logged_def Close_def EnableLogging_def
        Get_def Let_def chan_recv_def split: option.splits list.splits\<close>)
qed

lemma exec_logged: "interrupt_logged s \<Longrightarrow> interrupt_logged (exec e as s)"
  by (induction as arbitrary: s) (simp_all add: step_logged)

lemma New_logged: "New e cfg = Inr s \<Longrightarrow> interrupt_logged s"
  by (auto simp: New_defs interrupt_logged_def split: option.splits if_splits sum.splits)

subsection \<open>Every result channel belongs to one close goroutine\<close>

lemma closer_step_channels:
  assumes "result_channels s"
  shows "result_channels (closer_step e i s)"
proof (cases "length (closers s) \<le> i")
  case True
  then show ?thesis using assms by (simp add: closer_step_def)
next
  case False
  then have i: "i < length (closers s)" by simp
  show ?thesis
  proof (cases "at (closers s ! i)")
    case AtClose
    then show ?thesis using assms i
      by (auto simp: result_channels_def step_defs nth_list_update)
  next
    case AtCheckLogging
    then show ?thesis using assms i
      by (auto simp: result_channels_def step_defs nth_list_update)
  next
    case AtSend
    then show ?thesis using assms i
      by (auto simp: result_channels_def step_defs nth_list_update)
  next
    case AtLogClosed
    then show ?thesis using assms i
      by (auto simp: result_channels_def step_defs nth_list_update)
  next
    case AtSetClosed
    then show ?thesis using assms i
      by (auto simp: result_channels_def step_defs nth_list_update)
  next
    case Finished
    then show ?thesis using assms i
      by (auto simp: result_channels_def step_defs nth_list_update)
  qed
qed

lemma recv_channels:
  assumes "result_channels s" and "buf (chans s c) = x # xs"
  shows "result_channels (s\<lparr>chans := (chans s)(c := (chans s c)\<lparr>buf := xs\<rparr>)\<rparr>)"
  using assms by (auto simp: result_channels_def)

lemma Close_channels:
  assumes "result_channels s"
  shows "result_channels (snd (Close s))"
  using assms by (auto simp: result_channels_def Close_def make_chan_def Let_def nth_append)

lemma watcher_step_channels:
  assumes "result_channels s"
  shows "result_channels (watcher_step s)"
proof (cases "watcher s")
  case WatcherNotStarted
  then show ?thesis using assms by (simp add: watcher_step_def)
next
  case AwaitSignal
  then show ?thesis using assms
    by (auto simp: result_channels_def watcher_step_def split: list.splits)
next
  case Signalled
  obtain r s2 where c:
    "Close (s\<lparr>logs := logs s @ [''Keyboard-Interrupt signal received.'']\<rparr>) = (r, s2)"
    by (cases "Close (s\<lparr>logs := logs s @ [''Keyboard-Interrupt signal received.'']\<rparr>)")
  have "result_channels (s\<lparr>logs := logs s @ [''Keyboard-Interrupt signal received.'']\<rparr>)"
    using assms by (simp add: result_channels_def)
  from Close_channels [OF this] c have "result_channels s2" by simp
  then have "result_channels (s2\<lparr>watcher := AwaitCloseError r\<rparr>)"
    by (simp add: result_channels_def)
  then show ?thesis using Signalled c by (simp add: watcher_step_def)
next
  case (AwaitCloseError r)
  show ?thesis
  proof (cases r)
    case None
    then show ?thesis using assms AwaitCloseError by (simp add: watcher_step_def)
  next
    case (Some c)
    show ?thesis
    proof (cases "buf (chans s c)")
      case Nil
      then show ?thesis using assms AwaitCloseError Some
        by (simp add: watcher_step_def chan_recv_def)
    next
      case (Cons x xs)
      from recv_channels [OF assms Cons] AwaitCloseError Some Cons show ?thesis
        by (simp add: watcher_step_def chan_recv_def result_channels_def)
    qed
  qed
next
  case (GotCloseError v)
  then show ?thesis using assms
    by (cases v) (auto simp: result_channels_def watcher_step_def)
qed

lemma router_step_channels:
  assumes "result_channels s"
  shows "result_channels (router_step s)"
  using assms
  by (cases "router s")
    (auto simp: result_channels_def step_defs split: option.splits list.splits)

lemma step_channels:
  assumes "result_channels s"
  shows "result_channels (step e a s)"
proof (cases "status s = Running")
  case False
  then show ?thesis using assms by (simp add: step_def)
next
  case True
  show ?thesis
  proof (cases a)
    case UserClose
    then show ?thesis using assms True by (simp add: step_def Close_channels)
  next
    case (UserRecv c)
    show ?thesis
    proof (cases "buf (chans s c)")
      case Nil
      then show ?thesis using assms True UserRecv by (simp add: step_def chan_recv_def)
    next
      case (Cons x xs)
      from recv_channels [OF assms Cons] True UserRecv Cons show ?thesis
        by (simp add: step_def chan_recv_def)
    qed
  next
    case RunWatcher
    then show ?thesis using assms True by (simp add: step_def watcher_step_channels)
  next
    case RunRouter
    then show ?thesis using assms True by (simp add: step_def router_step_channels)
  next
    case (RunCloser i)
    then show ?thesis using assms True by (simp add: step_def closer_step_channels)
  qed (use assms True in \<open>auto simp: step_def result_channels_def EnableLogging_def Get_def
        Let_def\<close>)
qed

lemma exec_channels: "result_channels s \<Longrightarrow> result_channels (exec e as s)"
  by (induction as arbitrary: s) (simp_all add: step_channels)

lemma New_channels: "New e cfg = Inr s \<Longrightarrow> result_channels s"
  by (auto simp: New_defs result_channels_def split: option.splits if_splits sum.splits)

lemma send_never_blocks:
  assumes "result_channels s" and "status s = Running" and "i < length (closers s)"
    and "at (closers s ! i) = AtSend"
  shows "at (closers (step e (RunCloser i) s) ! i) = AtLogClosed \<and>
         buf (chans (step e (RunCloser i) s) (closeErrorChan (closers s ! i))) =
           [closeErr (closers s ! i)]"
  using assms by (auto simp: result_channels_def step_def step_defs)

subsection \<open>One close sequence, statement by statement\<close>

lemma Close_open:
  assumes "\<not> isClosed (proxyProducer s)"
  shows "Close s =
    (Some (nchans s),
     s\<lparr>chans := (chans s)(nchans s := \<lparr>cap = 1, buf = []\<rparr>), nchans := Suc (nchans s),
       closers := closers s @ [\<lparr>at = AtClose, closeErrorChan = nchans s, closeErr = None\<rparr>]\<rparr>)"
  using assms by (simp add: Close_def IsClosed_def make_chan_def Let_def)

lemma run_closer_numeral:
  "run_closer e (numeral n) i s = run_closer e (pred_numeral n) i (step e (RunCloser i) s)"
  by (simp add: numeral_eq_Suc run_closer_Suc)

lemma run_closer_1: "run_closer e 1 i s = step e (RunCloser i) s"
  by (simp add: run_closer_def)

lemmas run_simps = run_closer_numeral run_closer_1 run_closer_Suc run_closer_0 Close_open
  step_def step_defs

lemma clean_close_run:
  assumes "status s = Running" and "\<not> isClosed (proxyProducer s)"
    and "closeResult e (closeCalls (producer (proxyProducer s))) = None"
  shows "run_closer e 3 (length (closers s)) (snd (Close s)) =
     s\<lparr>chans := (chans s)(nchans s := \<lparr>cap = 1, buf = []\<rparr>), nchans := Suc (nchans s),
       closers := closers s @ [\<lparr>at = Finished, closeErrorChan = nchans s, closeErr = None\<rparr>],
       logs := (if isLoggingEnabled (proxyProducer s)
                then logs s @ [''Async Producer closed.''] else logs s),
       proxyProducer := (proxyProducer s)
         \<lparr>producer := (producer (proxyProducer s))
            \<lparr>closeCalls := Suc (closeCalls (producer (proxyProducer s)))\<rparr>,
          isClosed := True\<rparr>\<rparr>"
  using assms by (simp add: run_simps)

lemma quiet_failed_close_run:
  assumes "status s = Running" and "\<not> isClosed (proxyProducer s)"
    and "closeResult e (closeCalls (producer (proxyProducer s))) = Some m"
    and "\<not> isLoggingEnabled (proxyProducer s)"
  shows "run_closer e 5 (length (closers s)) (snd (Close s)) =
     s\<lparr>chans := (chans s)(nchans s := \<lparr>cap = 1, buf = [Some m]\<rparr>), nchans := Suc (nchans s),
       closers := closers s @ [\<lparr>at = Finished, closeErrorChan = nchans s, closeErr = Some m\<rparr>],
       proxyProducer := (proxyProducer s)
         \<lparr>producer := (producer (proxyProducer s))
            \<lparr>closeCalls := Suc (closeCalls (producer (proxyProducer s)))\<rparr>,
          isClosed := True\<rparr>\<rparr>"
  using assms by (simp add: run_simps)

lemma fatal_failed_close_run:
  assumes "status s = Running" and "\<not> isClosed (proxyProducer s)"
    and "closeResult e (closeCalls (producer (proxyProducer s))) = Some m"
    and "isLoggingEnabled (proxyProducer s)"
  shows "run_closer e 2 (length (closers s)) (snd (Close s)) =
     s\<lparr>chans := (chans s)(nchans s := \<lparr>cap = 1, buf = []\<rparr>), nchans := Suc (nchans s),
       closers := closers s @
         [\<lparr>at = AtCheckLogging, closeErrorChan = nchans s, closeErr = Some m\<rparr>],
       proxyProducer := (proxyProducer s)
         \<lparr>producer := (producer (proxyProducer s))
            \<lparr>closeCalls := Suc (closeCalls (producer (proxyProducer s)))\<rparr>\<rparr>,
       status := Exited (CloseFatal (Some m))\<rparr>"
  using assms by (simp add: run_simps)

lemma run_closer_add: "run_closer e (m + n) i s = run_closer e n i (run_closer e m i s)"
  by (simp add: run_closer_def replicate_add exec_append)

lemma finished_step:
  assumes "i < length (closers s)" and "at (closers s ! i) = Finished"
  shows "step e (RunCloser i) s = s"
  using assms by (simp add: step_def closer_step_def Let_def)

lemma finished_run:
  assumes "i < length (closers s)" and "at (closers s ! i) = Finished"
  shows "run_closer e n i s = s"
  using assms by (induction n) (simp_all add: run_closer_0 run_closer_Suc finished_step)

section \<open>Closing\<close>

text \<open>
  C1. The claim is that any number of concurrent calls of \<^verbatim>\<open>Close()\<close> on a producer that
  is not closed run the adapter's close exactly once and report at most one error. The
  code does not do this: two calls made before either goroutine has written the flag both
  pass the \<^verbatim>\<open>IsClosed()\<close> check. In this run, in which every close of the adapter
  fails, the adapter's close has run twice and each of the two result channels holds an
  error.
\<close>

theorem two_calls_close_twice:
  "closeCalls (Get (proxyProducer
     (exec failing_env
        [UserClose, UserClose, RunCloser 0, RunCloser 1, RunCloser 0, RunCloser 1,
         RunCloser 0, RunCloser 1] started))) = 2 \<and>
   buf (chans
     (exec failing_env
        [UserClose, UserClose, RunCloser 0, RunCloser 1, RunCloser 0, RunCloser 1,
         RunCloser 0, RunCloser 1] started) 0) = [Some ''broker gone''] \<and>
   buf (chans
     (exec failing_env
        [UserClose, UserClose, RunCloser 0, RunCloser 1, RunCloser 0, RunCloser 1,
         RunCloser 0, RunCloser 1] started) 1) = [Some ''broker gone'']"
  by (simp add: step_def step_defs example_defs)

subsection \<open>A closed producer\<close>

lemma closer_step_isClosed:
  "isClosed (proxyProducer s) \<Longrightarrow> isClosed (proxyProducer (closer_step e i s))"
  by (simp add: step_defs split: closer_pc.split option.split)

lemma watcher_step_isClosed:
  "isClosed (proxyProducer s) \<Longrightarrow> isClosed (proxyProducer (watcher_step s))"
  by (simp add: step_defs split: watcher.split option.split list.split prod.split)

lemma router_step_isClosed:
  "isClosed (proxyProducer s) \<Longrightarrow> isClosed (proxyProducer (router_step s))"
  by (simp add: step_defs split: router.split option.split list.split)

lemma step_isClosed:
  "isClosed (proxyProducer s) \<Longrightarrow> isClosed (proxyProducer (step e a s))"
  by (cases a)
    (simp_all add: step_def closer_step_isClosed watcher_step_isClosed router_step_isClosed
      Close_def IsClosed_def EnableLogging_def Get_def Let_def split: option.split prod.split)

lemma exec_isClosed:
  "isClosed (proxyProducer s) \<Longrightarrow> isClosed (proxyProducer (exec e as s))"
  by (induction as arbitrary: s) (simp_all add: step_isClosed)

text \<open>
  C2, as the code has it. Once the flag is set it stays set whatever happens next, every
  later \<^verbatim>\<open>Input()\<close> returns no channel and the ResourceClosed error (code 4), and every
  later \<^verbatim>\<open>Close()\<close> changes nothing (no goroutine is started, the adapter's close is not
  called) and returns nil, that is no channel at all; a goroutine that receives from that
  nil channel stays blocked.
\<close>

theorem closed_producer:
  assumes "isClosed (proxyProducer s)"
  shows "isClosed (proxyProducer (exec e as s)) \<and>
         Input now (proxyProducer (exec e as s)) =
           (None, Some \<lparr>Code = 4, Time = now, Message = ''Producer already closed.''\<rparr>) \<and>
         Close (exec e as s) = (None, exec e as s) \<and>
         step e UserClose (exec e as s) = exec e as s \<and>
         watcher_step ((exec e as s)\<lparr>watcher := AwaitCloseError (fst (Close (exec e as s)))\<rparr>) =
           (exec e as s)\<lparr>watcher := AwaitCloseError (fst (Close (exec e as s)))\<rparr>"
  using exec_isClosed [OF assms, of e as]
  by (simp add: Input_def Close_def IsClosed_def step_def watcher_step_def
      ResourceClosedError_def createError_def)

lemma closed_example:
  "isClosed (proxyProducer
     (exec clean_env [UserClose, RunCloser 0, RunCloser 0, RunCloser 0] started))"
  by (simp add: step_def step_defs example_defs)

theorem closed_producer_witness:
  "Input 5 (proxyProducer
     (exec clean_env [UserClose, RunCloser 0, RunCloser 0, RunCloser 0, UserClose,
        OsSignal SIGINT] started)) =
     (None, Some \<lparr>Code = 4, Time = 5, Message = ''Producer already closed.''\<rparr>) \<and>
   closeCalls (Get (proxyProducer
     (exec clean_env [UserClose, RunCloser 0, RunCloser 0, RunCloser 0, UserClose,
        OsSignal SIGINT] started))) = 1"
proof -
  have "exec clean_env [UserClose, RunCloser 0, RunCloser 0, RunCloser 0, UserClose,
          OsSignal SIGINT] started =
        exec clean_env [UserClose, OsSignal SIGINT]
          (exec clean_env [UserClose, RunCloser 0, RunCloser 0, RunCloser 0] started)"
    by simp
  moreover have "closeCalls (Get (proxyProducer
     (exec clean_env [UserClose, RunCloser 0, RunCloser 0, RunCloser 0, UserClose,
        OsSignal SIGINT] started))) = 1"
    by (simp add: step_def step_defs example_defs)
  ultimately show ?thesis
    using closed_producer [OF closed_example, where now = 5 and e = clean_env
        and as = "[UserClose, OsSignal SIGINT]"]
    by simp
qed

text \<open>
  C2 as stated fails: on a closed producer \<^verbatim>\<open>Close()\<close> does not return a closed or empty
  channel, it returns nil.
\<close>

theorem closed_Close_returns_nil:
  "isClosed (proxyProducer
     (exec clean_env [UserClose, RunCloser 0, RunCloser 0, RunCloser 0] started)) \<and>
   fst (Close (exec clean_env [UserClose, RunCloser 0, RunCloser 0, RunCloser 0] started)) =
     None"
  by (simp add: step_def step_defs example_defs)

subsection \<open>The result channel\<close>

text \<open>
  C4 as stated fails: with logging enabled, a failing close of the adapter is not reported
  through the result channel. \<^verbatim>\<open>log.Fatal\<close> ends the process before the send, and the
  channel stays empty.
\<close>

theorem fatal_close_sends_nothing:
  "closeResult failing_env 0 = Some ''broker gone'' \<and>
   status (exec failing_env
     [UserEnableLogging, UserClose, RunCloser 0, RunCloser 0, RunCloser 0, RunCloser 0,
      RunCloser 0] started) = Exited (CloseFatal (Some ''broker gone'')) \<and>
   buf (chans (exec failing_env
     [UserEnableLogging, UserClose, RunCloser 0, RunCloser 0, RunCloser 0, RunCloser 0,
      RunCloser 0] started) 0) = []"
  by (simp add: step_def step_defs example_defs)

lemma clean_close_run_5:
  assumes "status s = Running" and "\<not> isClosed (proxyProducer s)"
    and "closeResult e (closeCalls (producer (proxyProducer s))) = None"
  shows "run_closer e 5 (length (closers s)) (snd (Close s)) =
         run_closer e 3 (length (closers s)) (snd (Close s))"
proof -
  have "run_closer e 5 (length (closers s)) (snd (Close s)) =
        run_closer e 2 (length (closers s)) (run_closer e 3 (length (closers s)) (snd (Close s)))"
    using run_closer_add [of e 3 2] by simp
  also have "\<dots> = run_closer e 3 (length (closers s)) (snd (Close s))"
    by (rule finished_run) (simp_all add: clean_close_run [OF assms])
  finally show ?thesis .
qed

lemma fatal_failed_close_run_ge:
  assumes "status s = Running" and "\<not> isClosed (proxyProducer s)"
    and "closeResult e (closeCalls (producer (proxyProducer s))) = Some m"
    and "isLoggingEnabled (proxyProducer s)" and "2 \<le> n"
  shows "run_closer e n (length (closers s)) (snd (Close s)) =
         run_closer e 2 (length (closers s)) (snd (Close s))"
proof -
  obtain d where n: "n = 2 + d"
    using \<open>2 \<le> n\<close> le_Suc_ex by blast
  show ?thesis
    unfolding n run_closer_add
    by (rule run_closer_stopped) (simp add: fatal_failed_close_run [OF assms(1-4)])
qed

text \<open>
  C4, as the code has it. In every state the process can reach: \<^verbatim>\<open>Close()\<close> on a producer
  that is not closed returns a new channel of capacity 1; its goroutine, run to its end
  with nobody reading, calls the adapter's close once and leaves the channel empty after a
  clean close, leaves it holding exactly the adapter's error after a failed close when
  logging is disabled, and is stopped by \<^verbatim>\<open>log.Fatal\<close> before sending when logging is
  enabled. Whatever else runs in between, a close goroutine that is about to send finds
  room in its channel, and a result channel never holds anything but the one error its
  goroutine got.
\<close>

theorem Close_result_channel:
  assumes "New e cfg = Inr s0" and "s = exec e as s0" and "status s = Running"
  shows
    "(\<not> isClosed (proxyProducer s) \<longrightarrow>
        fst (Close s) = Some (nchans s) \<and>
        chans (snd (Close s)) (nchans s) = \<lparr>cap = 1, buf = []\<rparr> \<and>
        (closeResult e (closeCalls (Get (proxyProducer s))) = None \<longrightarrow>
           buf (chans (close_then_run e 5 s) (nchans s)) = [] \<and>
           at (closers (close_then_run e 5 s) ! length (closers s))
             = Finished \<and>
           closeCalls (Get (proxyProducer (close_then_run e 5 s)))
             = Suc (closeCalls (Get (proxyProducer s)))) \<and>
        (\<forall>m. closeResult e (closeCalls (Get (proxyProducer s))) = Some m \<and>
              \<not> isLoggingEnabled (proxyProducer s) \<longrightarrow>
           buf (chans (close_then_run e 5 s) (nchans s))
             = [Some m] \<and>
           at (closers (close_then_run e 5 s) ! length (closers s))
             = Finished \<and>
           status (close_then_run e 5 s) = Running \<and>
           closeCalls (Get (proxyProducer (close_then_run e 5 s)))
             = Suc (closeCalls (Get (proxyProducer s)))) \<and>
        (\<forall>m. closeResult e (closeCalls (Get (proxyProducer s))) = Some m \<and>
              isLoggingEnabled (proxyProducer s) \<longrightarrow>
           buf (chans (close_then_run e 5 s) (nchans s)) = [] \<and>
           status (close_then_run e 5 s)
             = Exited (CloseFatal (Some m)) \<and>
           closeCalls (Get (proxyProducer (close_then_run e 5 s)))
             = Suc (closeCalls (Get (proxyProducer s))))) \<and>
     (\<forall>i < length (closers s).
        cap (chans s (closeErrorChan (closers s ! i))) = 1 \<and>
        (buf (chans s (closeErrorChan (closers s ! i))) = [] \<or>
         buf (chans s (closeErrorChan (closers s ! i))) = [closeErr (closers s ! i)]) \<and>
        (at (closers s ! i) = AtSend \<longrightarrow>
           at (closers (step e (RunCloser i) s) ! i) = AtLogClosed \<and>
           buf (chans (step e (RunCloser i) s) (closeErrorChan (closers s ! i))) =
             [closeErr (closers s ! i)]))"
proof -
  have inv: "result_channels s"
    using assms(1,2) by (simp add: New_channels exec_channels)
  have open_case: "fst (Close s) = Some (nchans s) \<and>
        chans (snd (Close s)) (nchans s) = \<lparr>cap = 1, buf = []\<rparr>"
    if "\<not> isClosed (proxyProducer s)"
    using that by (simp add: Close_open)
  have clean: "buf (chans (run_closer e 5 (length (closers s)) (snd (Close s))) (nchans s)) = [] \<and>
           at (closers (run_closer e 5 (length (closers s)) (snd (Close s))) ! length (closers s))
             = Finished \<and>
           closeCalls (Get (proxyProducer (run_closer e 5 (length (closers s)) (snd (Close s)))))
             = Suc (closeCalls (Get (proxyProducer s)))"
    if "\<not> isClosed (proxyProducer s)"
      and "closeResult e (closeCalls (Get (proxyProducer s))) = None"
    using that assms(3) by (simp add: Get_def clean_close_run_5 clean_close_run)
  have quiet: "buf (chans (run_closer e 5 (length (closers s)) (snd (Close s))) (nchans s))
             = [Some m] \<and>
           at (closers (run_closer e 5 (length (closers s)) (snd (Close s))) ! length (closers s))
             = Finished \<and>
           status (run_closer e 5 (length (closers s)) (snd (Close s))) = Running \<and>
           closeCalls (Get (proxyProducer (run_closer e 5 (length (closers s)) (snd (Close s)))))
             = Suc (closeCalls (Get (proxyProducer s)))"
    if "\<not> isClosed (proxyProducer s)"
      and "closeResult e (closeCalls (Get (proxyProducer s))) = Some m"
      and "\<not> isLoggingEnabled (proxyProducer s)" for m
    using that assms(3) by (simp add: Get_def quiet_failed_close_run)
  have fatal: "buf (chans (run_closer e 5 (length (closers s)) (snd (Close s))) (nchans s)) = [] \<and>
           status (run_closer e 5 (length (closers s)) (snd (Close s)))
             = Exited (CloseFatal (Some m)) \<and>
           closeCalls (Get (proxyProducer (run_closer e 5 (length (closers s)) (snd (Close s)))))
             = Suc (closeCalls (Get (proxyProducer s)))"
    if "\<not> isClosed (proxyProducer s)"
      and "closeResult e (closeCalls (Get (proxyProducer s))) = Some m"
      and "isLoggingEnabled (proxyProducer s)" for m
  proof -
    have "run_closer e 5 (length (closers s)) (snd (Close s)) =
          run_closer e 2 (length (closers s)) (snd (Close s))"
      using fatal_failed_close_run_ge [of s e m 5] that assms(3) by (simp add: Get_def)
    then show ?thesis
      using that assms(3) by (simp add: Get_def fatal_failed_close_run)
  qed
  have owned: "cap (chans s (closeErrorChan (closers s ! i))) = 1 \<and>
        (buf (chans s (closeErrorChan (closers s ! i))) = [] \<or>
         buf (chans s (closeErrorChan (closers s ! i))) = [closeErr (closers s ! i)])"
    if "i < length (closers s)" for i
    using inv that by (simp add: result_channels_def)
  have sends: "at (closers (step e (RunCloser i) s) ! i) = AtLogClosed \<and>
           buf (chans (step e (RunCloser i) s) (closeErrorChan (closers s ! i))) =
             [closeErr (closers s ! i)]"
    if "i < length (closers s)" and "at (closers s ! i) = AtSend" for i
    using send_never_blocks [OF inv assms(3) that] .
  show ?thesis
    unfolding close_then_run_def
    using open_case clean quiet fatal owned sends by blast
qed


theorem Close_result_channel_witness:
  "New failing_env (Some local_config) = Inr started \<and>
   started = exec failing_env [] started \<and>
   status started = Running \<and>
   \<not> isClosed (proxyProducer started) \<and>
   closeResult failing_env (closeCalls (Get (proxyProducer started))) = Some ''broker gone'' \<and>
   \<not> isLoggingEnabled (proxyProducer started) \<and>
   fst (Close started) = Some 0 \<and>
   buf (chans (close_then_run failing_env 5 started) 0) = [Some ''broker gone''] \<and>
   closeCalls (Get (proxyProducer (close_then_run failing_env 5 started))) = 1"
proof -
  have h: "started = exec failing_env [] started" "status started = Running"
    by (simp_all add: started_def)
  show ?thesis
    using Close_result_channel [OF New_local_config_failing h] New_local_config_failing
    by (simp add: Get_def started_def open_adapter_def failing_env_def)
qed

subsection \<open>The closed-flag\<close>

text \<open>
  C5 as stated fails: when the adapter's close fails and logging is enabled, the close
  sequence ends in \<^verbatim>\<open>log.Fatal\<close> and the flag is never written.
\<close>

theorem fatal_close_leaves_flag:
  "closeResult failing_env 0 = Some ''broker gone'' \<and>
   status (close_then_run failing_env 5 (step failing_env UserEnableLogging started)) =
     Exited (CloseFatal (Some ''broker gone'')) \<and>
   \<not> isClosed (proxyProducer
     (close_then_run failing_env 5 (step failing_env UserEnableLogging started)))"
  by (simp add: close_then_run_def run_simps example_defs)

lemma first_step_run:
  assumes "status s = Running" and "\<not> isClosed (proxyProducer s)"
  shows "closeCalls (producer (proxyProducer (close_then_run e 1 s))) =
           Suc (closeCalls (producer (proxyProducer s))) \<and>
         \<not> isClosed (proxyProducer (close_then_run e 1 s))"
  using assms by (simp add: close_then_run_def run_simps)

lemma clean_close_window:
  assumes "status s = Running" and "\<not> isClosed (proxyProducer s)"
    and "closeResult e (closeCalls (producer (proxyProducer s))) = None"
  shows "\<not> isClosed (proxyProducer (close_then_run e 2 s))"
  using assms by (simp add: close_then_run_def run_simps)

lemma quiet_close_window:
  assumes "status s = Running" and "\<not> isClosed (proxyProducer s)"
    and "closeResult e (closeCalls (producer (proxyProducer s))) = Some m"
    and "\<not> isLoggingEnabled (proxyProducer s)"
  shows "\<not> isClosed (proxyProducer (close_then_run e 2 s)) \<and>
         \<not> isClosed (proxyProducer (close_then_run e 3 s)) \<and>
         \<not> isClosed (proxyProducer (close_then_run e 4 s))"
  using assms by (simp add: close_then_run_def run_simps)

text \<open>
  C5, as the code has it. \<^verbatim>\<open>Close()\<close> on a running producer that is not closed returns
  with the flag still false, and the flag is still false when the adapter's close has
  returned (one more call is counted). After a clean close the goroutine writes the flag
  in its third and last statement, after a failed close with logging disabled in its fifth
  and last statement, and not before. After a failed close with logging enabled the
  process has exited at the second statement and the flag stays false.
\<close>

theorem close_sequence_flag:
  assumes "status s = Running" and "\<not> isClosed (proxyProducer s)"
  shows
    "\<not> isClosed (proxyProducer (snd (Close s))) \<and>
     closeCalls (Get (proxyProducer (close_then_run e 1 s))) =
       Suc (closeCalls (Get (proxyProducer s))) \<and>
     \<not> isClosed (proxyProducer (close_then_run e 1 s)) \<and>
     (closeResult e (closeCalls (Get (proxyProducer s))) = None \<longrightarrow>
        \<not> isClosed (proxyProducer (close_then_run e 2 s)) \<and>
        isClosed (proxyProducer (close_then_run e 3 s)) \<and>
        at (closers (close_then_run e 3 s) ! length (closers s)) = Finished) \<and>
     (\<forall>m. closeResult e (closeCalls (Get (proxyProducer s))) = Some m \<and>
           \<not> isLoggingEnabled (proxyProducer s) \<longrightarrow>
        \<not> isClosed (proxyProducer (close_then_run e 2 s)) \<and>
        \<not> isClosed (proxyProducer (close_then_run e 3 s)) \<and>
        \<not> isClosed (proxyProducer (close_then_run e 4 s)) \<and>
        isClosed (proxyProducer (close_then_run e 5 s)) \<and>
        at (closers (close_then_run e 5 s) ! length (closers s)) = Finished) \<and>
     (\<forall>m n. closeResult e (closeCalls (Get (proxyProducer s))) = Some m \<and>
           isLoggingEnabled (proxyProducer s) \<longrightarrow>
        status (close_then_run e (2 + n) s) = Exited (CloseFatal (Some m)) \<and>
        \<not> isClosed (proxyProducer (close_then_run e (2 + n) s)))"
proof -
  have a: "\<not> isClosed (proxyProducer (snd (Close s)))"
    using assms by (simp add: Close_open)
  have clean: "isClosed (proxyProducer (close_then_run e 3 s)) \<and>
        at (closers (close_then_run e 3 s) ! length (closers s)) = Finished"
    if "closeResult e (closeCalls (Get (proxyProducer s))) = None"
    using that assms by (simp add: Get_def close_then_run_def clean_close_run)
  have quiet: "isClosed (proxyProducer (close_then_run e 5 s)) \<and>
        at (closers (close_then_run e 5 s) ! length (closers s)) = Finished"
    if "closeResult e (closeCalls (Get (proxyProducer s))) = Some m"
      and "\<not> isLoggingEnabled (proxyProducer s)" for m
    using that assms by (simp add: Get_def close_then_run_def quiet_failed_close_run)
  have fatal: "status (close_then_run e (2 + n) s) = Exited (CloseFatal (Some m)) \<and>
        \<not> isClosed (proxyProducer (close_then_run e (2 + n) s))"
    if "closeResult e (closeCalls (Get (proxyProducer s))) = Some m"
      and "isLoggingEnabled (proxyProducer s)" for m n
  proof -
    have "run_closer e (2 + n) (length (closers s)) (snd (Close s)) =
          run_closer e 2 (length (closers s)) (snd (Close s))"
      using fatal_failed_close_run_ge [of s e m "2 + n"] that assms by (simp add: Get_def)
    then show ?thesis
      using that assms by (simp add: Get_def close_then_run_def fatal_failed_close_run)
  qed
  show ?thesis
    using a first_step_run [OF assms, of e] clean_close_window [OF assms, of e]
      quiet_close_window [OF assms, of e] clean quiet fatal
    by (simp add: Get_def)
qed

theorem close_sequence_flag_witness:
  "status started = Running \<and>
   \<not> isClosed (proxyProducer started) \<and>
   closeResult clean_env (closeCalls (Get (proxyProducer started))) = None \<and>
   \<not> isClosed (proxyProducer (close_then_run clean_env 1 started)) \<and>
   \<not> isClosed (proxyProducer (close_then_run clean_env 2 started)) \<and>
   isClosed (proxyProducer (close_then_run clean_env 3 started))"
proof -
  have h: "status started = Running" "\<not> isClosed (proxyProducer started)"
    by (simp_all add: started_def)
  show ?thesis
    using close_sequence_flag [OF h, of clean_env]
    by (simp add: Get_def started_def open_adapter_def clean_env_def)
qed

section \<open>The signal goroutine\<close>

text \<open>
  C3. In every state the process can reach after \<^verbatim>\<open>New\<close>: the signal goroutine has not
  dereferenced a nil error; if it has ended the process, it did so with an error that a
  call of the adapter's close returned, and after logging the interrupt; on a signal it
  logs (whatever the logging flag) and calls \<^verbatim>\<open>Close()\<close>; it then waits while the result
  channel is empty and takes the first value that arrives; on the nil channel that
  \<^verbatim>\<open>Close()\<close> returns for a closed producer it waits forever; and a value it has received
  is an error, with which it ends the process.
\<close>

theorem signal_watcher:
  assumes "New e cfg = Inr s0" and "s = exec e as s0"
  shows
    "status s \<noteq> Panicked NilErrorDeref \<and>
     (\<forall>m. status s = Exited (InterruptFatal m) \<longrightarrow>
        reported e (closeCalls (Get (proxyProducer s))) (Some m) \<and>
        ''Keyboard-Interrupt signal received.'' \<in> set (logs s)) \<and>
     (status s = Running \<and> watcher s = Signalled \<longrightarrow>
        logs (step e RunWatcher s) = logs s @ [''Keyboard-Interrupt signal received.''] \<and>
        watcher (step e RunWatcher s) = AwaitCloseError (fst (Close s)) \<and>
        closers (step e RunWatcher s) = closers (snd (Close s))) \<and>
     (\<forall>c. status s = Running \<and> watcher s = AwaitCloseError (Some c) \<longrightarrow>
        (buf (chans s c) = [] \<longrightarrow> step e RunWatcher s = s) \<and>
        (\<forall>v vs. buf (chans s c) = v # vs \<longrightarrow>
           watcher (step e RunWatcher s) = GotCloseError v \<and>
           status (step e RunWatcher s) = Running)) \<and>
     (watcher s = AwaitCloseError None \<longrightarrow> step e RunWatcher s = s) \<and>
     (\<forall>v. status s = Running \<and> watcher s = GotCloseError v \<longrightarrow>
        (\<exists>m. v = Some m \<and> status (step e RunWatcher s) = Exited (InterruptFatal m)))"
proof -
  have errs: "close_errors_only e s"
    using assms by (simp add: New_errors exec_errors)
  have logged: "interrupt_logged s"
    using assms by (simp add: New_logged exec_logged)
  have no_panic: "status s \<noteq> Panicked NilErrorDeref"
    using errs by (simp add: close_errors_only_def)
  have fatal: "reported e (closeCalls (Get (proxyProducer s))) (Some m) \<and>
        ''Keyboard-Interrupt signal received.'' \<in> set (logs s)"
    if "status s = Exited (InterruptFatal m)" for m
    using errs logged that by (simp add: close_errors_only_def interrupt_logged_def)
  have signalled: "logs (step e RunWatcher s) = logs s @ [''Keyboard-Interrupt signal received.''] \<and>
        watcher (step e RunWatcher s) = AwaitCloseError (fst (Close s)) \<and>
        closers (step e RunWatcher s) = closers (snd (Close s))"
    if "status s = Running" and "watcher s = Signalled"
    using that by (simp add: step_def watcher_step_def Close_def IsClosed_def Let_def)
  have waits: "step e RunWatcher s = s"
    if "status s = Running" and "watcher s = AwaitCloseError (Some c)" and "buf (chans s c) = []"
    for c
    using that by (simp add: step_def watcher_step_def chan_recv_def)
  have takes: "watcher (step e RunWatcher s) = GotCloseError v \<and>
        status (step e RunWatcher s) = Running"
    if "status s = Running" and "watcher s = AwaitCloseError (Some c)"
      and "buf (chans s c) = v # vs" for c v vs
    using that by (simp add: step_def watcher_step_def chan_recv_def)
  have nil_chan: "step e RunWatcher s = s" if "watcher s = AwaitCloseError None"
    using that by (simp add: step_def watcher_step_def)
  have exits: "\<exists>m. v = Some m \<and> status (step e RunWatcher s) = Exited (InterruptFatal m)"
    if "status s = Running" and "watcher s = GotCloseError v" for v
  proof -
    have "reported e (closeCalls (Get (proxyProducer s))) v"
      using errs that by (simp add: close_errors_only_def)
    then obtain m where "v = Some m"
      by (cases v) (simp_all add: reported_not_nil)
    then show ?thesis
      using that by (simp add: step_def watcher_step_def)
  qed
  show ?thesis
    using no_panic fatal signalled waits takes nil_chan exits by blast
qed

theorem signal_watcher_witness:
  "New failing_env (Some local_config) = Inr started \<and>
   status (exec failing_env
     [OsSignal SIGINT, RunWatcher, RunWatcher, RunCloser 0, RunCloser 0, RunCloser 0,
      RunWatcher, RunWatcher] started) = Exited (InterruptFatal ''broker gone'') \<and>
   reported failing_env
     (closeCalls (Get (proxyProducer (exec failing_env
       [OsSignal SIGINT, RunWatcher, RunWatcher, RunCloser 0, RunCloser 0, RunCloser 0,
        RunWatcher, RunWatcher] started)))) (Some ''broker gone'') \<and>
   ''Keyboard-Interrupt signal received.'' \<in> set (logs (exec failing_env
     [OsSignal SIGINT, RunWatcher, RunWatcher, RunCloser 0, RunCloser 0, RunCloser 0,
      RunWatcher, RunWatcher] started))"
proof -
  have run: "status (exec failing_env
     [OsSignal SIGINT, RunWatcher, RunWatcher, RunCloser 0, RunCloser 0, RunCloser 0,
      RunWatcher, RunWatcher] started) = Exited (InterruptFatal ''broker gone'')"
    by (simp add: step_def step_defs example_defs)
  show ?thesis
    using signal_watcher [OF New_local_config_failing refl,
        of "[OsSignal SIGINT, RunWatcher, RunWatcher, RunCloser 0, RunCloser 0, RunCloser 0,
             RunWatcher, RunWatcher]"]
      run New_local_config_failing
    by blast
qed

section \<open>The error goroutine\<close>

lemma errHandler_closer_step: "errHandler (closer_step e i s) = errHandler s"
  by (simp add: step_defs split: closer_pc.split option.split)

lemma errHandler_watcher_step: "errHandler (watcher_step s) = errHandler s"
  by (simp add: step_defs split: watcher.split option.split list.split prod.split)

lemma errHandler_router_step: "errHandler (router_step s) = errHandler s"
  by (simp add: step_defs split: router.split option.split list.split)

lemma errHandler_step: "errHandler (step e a s) = errHandler s"
  by (cases a)
    (simp_all add: step_def errHandler_closer_step errHandler_watcher_step
      errHandler_router_step Close_def chan_recv_def Let_def
      split: option.split list.split prod.split)

lemma errHandler_exec: "errHandler (exec e as s) = errHandler s"
  by (induction as arbitrary: s) (simp_all add: errHandler_step)

lemma errHandler_New: "New e (Some cfg) = Inr s \<Longrightarrow> errHandler s = ErrHandler cfg"
  by (auto simp: New_defs split: if_splits sum.splits)

text \<open>
  C6. The error goroutine takes each delivery error from the adapter's error channel, once,
  and then handles it. If logging is enabled when it does, the process exits with
  \<^verbatim>\<open>log.Fatalln\<close> and the handler is not called, then or later. If logging is disabled and
  a handler \<open>h\<close> was supplied, \<open>h\<close> is called once with that error, the process keeps
  running and the goroutine goes back to waiting for the next error.
\<close>

theorem error_router:
  assumes "status s = Running"
  shows
    "(\<forall>x xs. router s = AwaitError \<and> errorsQ (Get (proxyProducer s)) = x # xs \<longrightarrow>
        router (step e RunRouter s) = GotError x \<and>
        errorsQ (Get (proxyProducer (step e RunRouter s))) = xs \<and>
        handled (step e RunRouter s) = handled s \<and>
        status (step e RunRouter s) = Running) \<and>
     (\<forall>x. router s = GotError x \<and> isLoggingEnabled (proxyProducer s) \<longrightarrow>
        status (step e RunRouter s) = Exited (DeliveryFatal x) \<and>
        (\<forall>as. handled (exec e (RunRouter # as) s) = handled s)) \<and>
     (\<forall>x h. router s = GotError x \<and> \<not> isLoggingEnabled (proxyProducer s) \<and>
            errHandler s = Some h \<longrightarrow>
        handled (step e RunRouter s) = handled s @ [(h, x)] \<and>
        status (step e RunRouter s) = Running \<and>
        router (step e RunRouter s) = AwaitError)"
proof -
  have drain: "router (step e RunRouter s) = GotError x \<and>
        errorsQ (Get (proxyProducer (step e RunRouter s))) = xs \<and>
        handled (step e RunRouter s) = handled s \<and>
        status (step e RunRouter s) = Running"
    if "router s = AwaitError" and "errorsQ (Get (proxyProducer s)) = x # xs" for x xs
    using assms that by (simp add: step_def router_step_def Get_def Let_def)
  have fatal: "status (step e RunRouter s) = Exited (DeliveryFatal x) \<and>
        handled (exec e (RunRouter # as) s) = handled s"
    if "router s = GotError x" and "isLoggingEnabled (proxyProducer s)" for x as
  proof -
    have "status (step e RunRouter s) = Exited (DeliveryFatal x) \<and>
          handled (step e RunRouter s) = handled s"
      using assms that by (simp add: step_def router_step_def)
    then show ?thesis
      by (simp add: exec_stopped)
  qed
  have call: "handled (step e RunRouter s) = handled s @ [(h, x)] \<and>
        status (step e RunRouter s) = Running \<and>
        router (step e RunRouter s) = AwaitError"
    if "router s = GotError x" and "\<not> isLoggingEnabled (proxyProducer s)"
      and "errHandler s = Some h" for x h
    using assms that by (simp add: step_def router_step_def)
  show ?thesis
    using drain fatal call by blast
qed

theorem error_router_witness:
  "handled (exec clean_env [AdapterError \<lparr>Msg = CreateMessage (proxyProducer started)
       ''orders'' ''paid'', Err = ''timeout''\<rparr>, RunRouter, RunRouter] started) =
     [(0, \<lparr>Msg = CreateMessage (proxyProducer started) ''orders'' ''paid'', Err = ''timeout''\<rparr>)] \<and>
   status (exec clean_env [AdapterError \<lparr>Msg = CreateMessage (proxyProducer started)
       ''orders'' ''paid'', Err = ''timeout''\<rparr>, RunRouter, RunRouter] started) = Running \<and>
   status (exec clean_env [UserEnableLogging, AdapterError \<lparr>Msg = CreateMessage
       (proxyProducer started) ''orders'' ''paid'', Err = ''timeout''\<rparr>, RunRouter, RunRouter]
       started) =
     Exited (DeliveryFatal \<lparr>Msg = CreateMessage (proxyProducer started) ''orders'' ''paid'',
       Err = ''timeout''\<rparr>)"
proof -
  let ?x = "\<lparr>Msg = CreateMessage (proxyProducer started) ''orders'' ''paid'', Err = ''timeout''\<rparr>"
  let ?s = "exec clean_env [AdapterError ?x, RunRouter] started"
  let ?t = "exec clean_env [UserEnableLogging, AdapterError ?x, RunRouter] started"
  have s: "status ?s = Running" "router ?s = GotError ?x"
    "\<not> isLoggingEnabled (proxyProducer ?s)" "errHandler ?s = Some 0" "handled ?s = []"
    by (simp_all add: step_def router_step_def Get_def EnableLogging_def Let_def example_defs)
  have t: "status ?t = Running" "router ?t = GotError ?x" "isLoggingEnabled (proxyProducer ?t)"
    by (simp_all add: step_def router_step_def Get_def EnableLogging_def Let_def example_defs)
  have "handled (step clean_env RunRouter ?s) = [(0, ?x)] \<and>
        status (step clean_env RunRouter ?s) = Running"
    using error_router [OF s(1), of clean_env] s(2-5) by simp
  moreover have "status (step clean_env RunRouter ?t) = Exited (DeliveryFatal ?x)"
    using error_router [OF t(1), of clean_env] t(2,3) by simp
  ultimately show ?thesis
    by simp
qed

text \<open>
  C9. A producer built without an error handler: in every state the process can reach in
  which logging is disabled and the error goroutine holds a delivery error it has taken
  from the adapter's error channel, the goroutine calls the nil handler and the process
  panics.
\<close>

theorem nil_handler_panics:
  assumes "New e (Some cfg) = Inr s0" and "ErrHandler cfg = None" and "s = exec e as s0"
    and "status s = Running" and "router s = GotError x"
    and "\<not> isLoggingEnabled (proxyProducer s)"
  shows "status (step e RunRouter s) = Panicked NilHandlerCall"
proof -
  have "errHandler s = None"
    using assms(1,2,3) by (simp add: errHandler_exec errHandler_New)
  then show ?thesis
    using assms(4,5,6) by (simp add: step_def router_step_def)
qed

theorem nil_handler_panics_witness:
  "New clean_env (Some bare_config) = Inr started_bare \<and>
   ErrHandler bare_config = None \<and>
   status (exec clean_env
     [AdapterError \<lparr>Msg = CreateMessage (proxyProducer started) ''orders'' ''paid'',
        Err = ''timeout''\<rparr>, RunRouter, RunRouter] started_bare) = Panicked NilHandlerCall"
proof -
  let ?x = "\<lparr>Msg = CreateMessage (proxyProducer started) ''orders'' ''paid'', Err = ''timeout''\<rparr>"
  let ?s = "exec clean_env [AdapterError ?x, RunRouter] started_bare"
  have s: "status ?s = Running" "router ?s = GotError ?x"
    "\<not> isLoggingEnabled (proxyProducer ?s)"
    by (simp_all add: step_def router_step_def Get_def Let_def example_defs)
  have c: "ErrHandler bare_config = None"
    by (simp add: bare_config_def)
  have "status (step clean_env RunRouter ?s) = Panicked NilHandlerCall"
    using nil_handler_panics [OF New_bare_config c refl s] .
  then show ?thesis
    using New_bare_config c by simp
qed


end
